theory Spec2Isabelle
  imports Main "HOL-Library.Char_ord"
begin

section \<open>The one-hot featurizer of molencoder/featurizers.py\<close>

text \<open>
  The class \<open>OneHotFeaturizer\<close> holds two fields, \<open>charset\<close> (a list of one-character
  strings, or Python's None until it is built) and \<open>pad_length\<close> (a Python int).
  Strings are lists of characters, a one-hot row is a list of Python ints, an encoded
  string is a list of rows and a batch a list of encoded strings: the nested lists stand
  for the numpy arrays that \<open>np.array\<close> builds from them. Every exception the Python
  can raise is a value \<open>Inl e\<close> of the result.
\<close>

datatype py_error = ValueError | TypeError | IndexError | AttributeError

record OneHotFeaturizer =
  charset :: "string option"
  pad_length :: int

text \<open>\<open>__init__(self, charset=None, padlength=120)\<close>\<close>

definition init :: "string option \<Rightarrow> int \<Rightarrow> OneHotFeaturizer" where
  "init cs padlength = \<lparr>charset = cs, pad_length = padlength\<rparr>"

definition init_default :: OneHotFeaturizer where
  "init_default = init None 120"

subsection \<open>Library functions the class calls\<close>

text \<open>
  \<open>list.index(c)\<close>: the position of the first element equal to \<open>c\<close>; Python raises
  ValueError (\<open>c is not in list\<close>) when there is none.
\<close>

fun list_index :: "'a list \<Rightarrow> 'a \<Rightarrow> py_error + nat" where
  "list_index [] c = Inl ValueError"
| "list_index (x # xs) c =
     (if x = c then Inr 0
      else (case list_index xs c of Inl e \<Rightarrow> Inl e | Inr i \<Rightarrow> Inr (Suc i)))"

text \<open>
  \<open>str.ljust(width)\<close>: the string itself when \<open>width\<close> is at most its length, otherwise
  the string followed by spaces up to \<open>width\<close> characters.
\<close>

definition ljust :: "string \<Rightarrow> int \<Rightarrow> string" where
  "ljust s width =
     (if width \<le> int (length s) then s
      else s @ replicate (nat (width - int (length s))) (CHR '' ''))"

text \<open>
  \<open>str.isspace\<close> on one character, for the code points below 256: tab to carriage
  return, the four separators 28 to 31, the space, NEL (133) and the no-break space (160).
  \<open>str.strip()\<close> removes the leading and the trailing characters of that kind.
\<close>

definition isspace :: "char \<Rightarrow> bool" where
  "isspace c =
     (let n = (of_char c :: nat)
      in (9 \<le> n \<and> n \<le> 13) \<or> (28 \<le> n \<and> n \<le> 32) \<or> n = 133 \<or> n = 160)"

definition strip :: "string \<Rightarrow> string" where
  "strip s = rev (dropWhile isspace (rev (dropWhile isspace s)))"

text \<open>
  \<open>np.argmax\<close> of a one-dimensional array: the index of the first occurrence of the
  maximum; numpy raises ValueError on an empty array. The scan keeps the best value and
  its index and replaces them only by a strictly larger entry.
\<close>

fun argmax_scan :: "'a::linorder \<Rightarrow> nat \<Rightarrow> nat \<Rightarrow> 'a list \<Rightarrow> nat" where
  "argmax_scan best bi i [] = bi"
| "argmax_scan best bi i (x # xs) =
     (if best < x then argmax_scan x i (Suc i) xs
      else argmax_scan best bi (Suc i) xs)"

definition argmax :: "'a::linorder list \<Rightarrow> py_error + nat" where
  "argmax row = (case row of [] \<Rightarrow> Inl ValueError | x # xs \<Rightarrow> Inr (argmax_scan x 0 1 xs))"

subsection \<open>The vocabulary builder\<close>

text \<open>
  \<open>_create_charset\<close>: the two nested loops add every character of every string to a
  set; the result is a space followed by the sorted elements of the set.
\<close>

definition add_chars :: "string \<Rightarrow> char set \<Rightarrow> char set" where
  "add_chars smile s = fold insert smile s"

definition collect_chars :: "string list \<Rightarrow> char set" where
  "collect_chars smiles = fold add_chars smiles {}"

definition create_charset :: "string list \<Rightarrow> string" where
  "create_charset smiles = CHR '' '' # sorted_list_of_set (collect_chars smiles)"

subsection \<open>The encoder\<close>

text \<open>
  \<open>one_hot_array(i)\<close>: \<open>[int(x) for x in [ix == i for ix in range(len(self.charset))]]\<close>;
  \<open>len(None)\<close> raises TypeError.
\<close>

definition one_hot_array :: "OneHotFeaturizer \<Rightarrow> int \<Rightarrow> py_error + int list" where
  "one_hot_array fz i =
     (case charset fz of
        None \<Rightarrow> Inl TypeError
      | Some cs \<Rightarrow> Inr (map (\<lambda>ix. if int ix = i then 1 else 0) [0..<length cs]))"

text \<open>\<open>one_hot_index(c)\<close>: \<open>self.charset.index(c)\<close>; None has no attribute \<open>index\<close>.\<close>

definition one_hot_index :: "OneHotFeaturizer \<Rightarrow> char \<Rightarrow> py_error + nat" where
  "one_hot_index fz c =
     (case charset fz of
        None \<Rightarrow> Inl AttributeError
      | Some cs \<Rightarrow> list_index cs c)"

text \<open>\<open>pad_smile(smile)\<close>: \<open>smile.ljust(self.pad_length)\<close>.\<close>

definition pad_smile :: "OneHotFeaturizer \<Rightarrow> string \<Rightarrow> string" where
  "pad_smile fz smile = ljust smile (pad_length fz)"

text \<open>
  \<open>one_hot_encoded(smile)\<close>: the comprehension over the padded string; for each
  character the index is looked up first, then the row is built, and the first exception
  ends the whole comprehension.
\<close>

fun encode_chars :: "OneHotFeaturizer \<Rightarrow> string \<Rightarrow> py_error + int list list" where
  "encode_chars fz [] = Inr []"
| "encode_chars fz (x # xs) =
     (case one_hot_index fz x of
        Inl e \<Rightarrow> Inl e
      | Inr i \<Rightarrow>
          (case one_hot_array fz (int i) of
             Inl e \<Rightarrow> Inl e
           | Inr row \<Rightarrow>
               (case encode_chars fz xs of
                  Inl e \<Rightarrow> Inl e
                | Inr rows \<Rightarrow> Inr (row # rows))))"

definition one_hot_encoded :: "OneHotFeaturizer \<Rightarrow> string \<Rightarrow> py_error + int list list" where
  "one_hot_encoded fz smile = encode_chars fz (pad_smile fz smile)"

text \<open>
  \<open>np.array\<close> on the list of encoded strings. Each encoded string is itself an array
  with one row of \<open>len(self.charset)\<close> entries per character (so \<open>np.array\<close> inside
  \<open>one_hot_encoded\<close> always gets rows of equal width and cannot fail), and the shapes
  of two encoded strings differ exactly when their numbers of rows differ. On shapes that
  differ numpy (from version 1.24 on) raises ValueError (inhomogeneous shape); otherwise the batch is the array
  of the encoded strings.
\<close>

fun same_heights :: "'a list list \<Rightarrow> bool" where
  "same_heights [] = True"
| "same_heights (m # ms) = list_all (\<lambda>m'. length m' = length m) ms"

definition np_array :: "'a list list \<Rightarrow> py_error + 'a list list" where
  "np_array ms = (if same_heights ms then Inr ms else Inl ValueError)"

text \<open>
  \<open>featurize(smiles)\<close>: builds the charset when the field is None, stores it in the
  object, then returns \<open>np.array([self.one_hot_encoded(smile) for smile in smiles])\<close>.
  The comprehension ends at the first exception; \<open>np.array\<close> runs only when every string
  has been encoded. The object after the call is returned with the result, also when the
  call raises.
\<close>

fun encode_smiles :: "OneHotFeaturizer \<Rightarrow> string list \<Rightarrow> py_error + int list list list" where
  "encode_smiles fz [] = Inr []"
| "encode_smiles fz (smile # smiles) =
     (case one_hot_encoded fz smile of
        Inl e \<Rightarrow> Inl e
      | Inr m \<Rightarrow>
          (case encode_smiles fz smiles of
             Inl e \<Rightarrow> Inl e
           | Inr ms \<Rightarrow> Inr (m # ms)))"

definition encode_batch :: "OneHotFeaturizer \<Rightarrow> string list \<Rightarrow> py_error + int list list list" where
  "encode_batch fz smiles =
     (case encode_smiles fz smiles of Inl e \<Rightarrow> Inl e | Inr ms \<Rightarrow> np_array ms)"

definition featurize ::
  "OneHotFeaturizer \<Rightarrow> string list \<Rightarrow> OneHotFeaturizer \<times> (py_error + int list list list)" where
  "featurize fz smiles =
     (let fz' = (if charset fz = None then fz\<lparr>charset := Some (create_charset smiles)\<rparr> else fz)
      in (fz', encode_batch fz' smiles))"

subsection \<open>The decoder\<close>

text \<open>
  The body of the inner loop of \<open>untransform\<close>: \<open>oh = np.argmax(z[i][j])\<close>, then
  \<open>self.charset[oh]\<close>. Indexing None raises TypeError, an index past the end of the
  list raises IndexError (\<open>oh\<close> is never negative).
\<close>

definition decode_row :: "OneHotFeaturizer \<Rightarrow> 'a::linorder list \<Rightarrow> py_error + char" where
  "decode_row fz row =
     (case argmax row of
        Inl e \<Rightarrow> Inl e
      | Inr oh \<Rightarrow>
          (case charset fz of
             None \<Rightarrow> Inl TypeError
           | Some cs \<Rightarrow> if oh < length cs then Inr (cs ! oh) else Inl IndexError))"

text \<open>The inner loop, \<open>s\<close> being the string built so far.\<close>

fun decode_rows :: "OneHotFeaturizer \<Rightarrow> string \<Rightarrow> 'a::linorder list list \<Rightarrow> py_error + string" where
  "decode_rows fz s [] = Inr s"
| "decode_rows fz s (row # rows) =
     (case decode_row fz row of
        Inl e \<Rightarrow> Inl e
      | Inr c \<Rightarrow> decode_rows fz (s @ [c]) rows)"

text \<open>The outer loop, \<open>z1\<close> being the list built so far; each entry is \<open>[s.strip()]\<close>.\<close>

fun untransform_loop ::
  "OneHotFeaturizer \<Rightarrow> string list list \<Rightarrow> 'a::linorder list list list \<Rightarrow> py_error + string list list" where
  "untransform_loop fz z1 [] = Inr z1"
| "untransform_loop fz z1 (m # ms) =
     (case decode_rows fz [] m of
        Inl e \<Rightarrow> Inl e
      | Inr s \<Rightarrow> untransform_loop fz (z1 @ [[strip s]]) ms)"

definition untransform ::
  "OneHotFeaturizer \<Rightarrow> 'a::linorder list list list \<Rightarrow> py_error + string list list" where
  "untransform fz z = untransform_loop fz [] z"

subsection \<open>Notions used in the statements\<close>

text \<open>
  The row that \<open>one_hot_array\<close> returns for a charset of \<open>n\<close> characters: a 1 at
  position \<open>i\<close> and 0 elsewhere.
\<close>

definition one_hot :: "nat \<Rightarrow> nat \<Rightarrow> int list" where
  "one_hot n i = map (\<lambda>ix. if ix = i then 1 else 0) [0..<n]"

text \<open>
  The charset an encode call works with: the field when it is set, otherwise the one
  derived from the corpus of that call.
\<close>

definition active_charset :: "OneHotFeaturizer \<Rightarrow> string list \<Rightarrow> string" where
  "active_charset fz smiles = (case charset fz of None \<Rightarrow> create_charset smiles | Some cs \<Rightarrow> cs)"

section \<open>Properties of the library functions\<close>

lemma list_index_in:
  "c \<in> set cs \<Longrightarrow> \<exists>i. list_index cs c = Inr i \<and> i < length cs \<and> cs ! i = c"
  by (induction cs) auto

lemma list_index_notin: "c \<notin> set cs \<Longrightarrow> list_index cs c = Inl ValueError"
  by (induction cs) auto

lemma ljust_short:
  "int (length s) \<le> w \<Longrightarrow> ljust s w = s @ replicate (nat (w - int (length s))) (CHR '' '')"
  by (simp add: ljust_def)

lemma length_ljust: "int (length (ljust s w)) = max (int (length s)) w"
  by (simp add: ljust_def)

lemma isspace_space: "isspace (CHR '' '')"
  by (simp add: isspace_def)

lemma strip_padded:
  assumes "s = [] \<or> (\<not> isspace (hd s) \<and> \<not> isspace (last s))"
  shows "strip (s @ replicate n (CHR '' '')) = s"
proof (cases "s = []")
  case True
  have "dropWhile isspace (replicate n (CHR '' '')) = []"
    by (simp add: isspace_space)
  with True show ?thesis by (simp add: strip_def)
next
  case False
  with assms have hd: "\<not> isspace (hd s)" and lst: "\<not> isspace (last s)" by auto
  from False hd have 1: "dropWhile isspace (s @ replicate n (CHR '' '')) = s @ replicate n (CHR '' '')"
    by (cases s) auto
  have 2: "dropWhile isspace (replicate n (CHR '' '') @ rev s) = dropWhile isspace (rev s)"
    by (simp add: dropWhile_append isspace_space)
  from False lst have 3: "dropWhile isspace (rev s) = rev s"
    by (cases "rev s") (auto simp: last_rev [symmetric] simp del: last_rev)
  show ?thesis by (simp add: strip_def 1 2 3)
qed

text \<open>
  The scan returns an index of the maximum such that every earlier entry is strictly
  smaller; \<open>pre\<close> is the part of the row already scanned.
\<close>

lemma argmax_scan_spec:
  assumes "length pre = i" "bi < i" "pre ! bi = best"
    and "\<forall>j<i. pre ! j \<le> best" and "\<forall>j<bi. pre ! j < best"
  shows "argmax_scan best bi i xs < length (pre @ xs) \<and>
         (\<forall>j<length (pre @ xs). (pre @ xs) ! j \<le> (pre @ xs) ! argmax_scan best bi i xs) \<and>
         (\<forall>j<argmax_scan best bi i xs. (pre @ xs) ! j < (pre @ xs) ! argmax_scan best bi i xs)"
  using assms
proof (induction xs arbitrary: pre best bi i)
  case Nil
  then show ?case by simp
next
  case (Cons x xs)
  show ?case
  proof (cases "best < x")
    case True
    have "argmax_scan x i (Suc i) xs < length ((pre @ [x]) @ xs) \<and>
         (\<forall>j<length ((pre @ [x]) @ xs). ((pre @ [x]) @ xs) ! j \<le> ((pre @ [x]) @ xs) ! argmax_scan x i (Suc i) xs) \<and>
         (\<forall>j<argmax_scan x i (Suc i) xs. ((pre @ [x]) @ xs) ! j < ((pre @ [x]) @ xs) ! argmax_scan x i (Suc i) xs)"
    proof (rule Cons.IH)
      show "length (pre @ [x]) = Suc i" using Cons.prems by simp
      show "i < Suc i" by simp
      show "(pre @ [x]) ! i = x" using Cons.prems(1) by (auto simp: nth_append)
      show "\<forall>j<Suc i. (pre @ [x]) ! j \<le> x"
        using Cons.prems True by (auto simp: nth_append less_Suc_eq)
      show "\<forall>j<i. (pre @ [x]) ! j < x"
        using Cons.prems True by (auto simp: nth_append)
    qed
    with True show ?thesis by simp
  next
    case False
    have "argmax_scan best bi (Suc i) xs < length ((pre @ [x]) @ xs) \<and>
         (\<forall>j<length ((pre @ [x]) @ xs). ((pre @ [x]) @ xs) ! j \<le> ((pre @ [x]) @ xs) ! argmax_scan best bi (Suc i) xs) \<and>
         (\<forall>j<argmax_scan best bi (Suc i) xs. ((pre @ [x]) @ xs) ! j < ((pre @ [x]) @ xs) ! argmax_scan best bi (Suc i) xs)"
    proof (rule Cons.IH)
      show "length (pre @ [x]) = Suc i" using Cons.prems by simp
      show "bi < Suc i" using Cons.prems by simp
      show "(pre @ [x]) ! bi = best" using Cons.prems by (simp add: nth_append)
      show "\<forall>j<Suc i. (pre @ [x]) ! j \<le> best"
        using Cons.prems False by (auto simp: nth_append less_Suc_eq)
      show "\<forall>j<bi. (pre @ [x]) ! j < best"
        using Cons.prems by (auto simp: nth_append)
    qed
    with False show ?thesis by simp
  qed
qed

lemma argmax_spec:
  assumes "row \<noteq> []"
  shows "\<exists>k. argmax row = Inr k \<and> k < length row \<and>
           (\<forall>j<length row. row ! j \<le> row ! k) \<and> (\<forall>j<k. row ! j < row ! k)"
proof -
  from assms obtain x xs where row: "row = x # xs" by (cases row) auto
  have "argmax_scan x 0 1 xs < length ([x] @ xs) \<and>
         (\<forall>j<length ([x] @ xs). ([x] @ xs) ! j \<le> ([x] @ xs) ! argmax_scan x 0 1 xs) \<and>
         (\<forall>j<argmax_scan x 0 1 xs. ([x] @ xs) ! j < ([x] @ xs) ! argmax_scan x 0 1 xs)"
    by (rule argmax_scan_spec) auto
  then show ?thesis by (simp add: row argmax_def)
qed

lemma argmax_eqI:
  assumes "i < length row" and "\<forall>j<length row. row ! j \<le> row ! i" and "\<forall>j<i. row ! j < row ! i"
  shows "argmax row = Inr i"
proof -
  from assms(1) have "row \<noteq> []" by auto
  from argmax_spec [OF this] obtain k where k: "argmax row = Inr k" "k < length row"
    "\<forall>j<length row. row ! j \<le> row ! k" "\<forall>j<k. row ! j < row ! k" by blast
  have "\<not> k < i" using assms k by (metis leD)
  moreover have "\<not> i < k" using assms k by (metis leD)
  ultimately show ?thesis using k(1) by simp
qed

section \<open>The vocabulary builder\<close>

lemma add_chars_set: "add_chars smile s = set smile \<union> s"
  unfolding add_chars_def by (induction smile arbitrary: s) auto

lemma fold_add_chars: "fold add_chars smiles s = s \<union> set (concat smiles)"
  by (induction smiles arbitrary: s) (auto simp: add_chars_set)

lemma collect_chars_set: "collect_chars smiles = set (concat smiles)"
  by (simp add: collect_chars_def fold_add_chars)

lemma set_create_charset: "set (create_charset smiles) = insert (CHR '' '') (set (concat smiles))"
  by (simp add: create_charset_def collect_chars_set)

text \<open>
  What holds of every charset that is built: the space is at index 0, the rest is sorted
  and free of duplicates, and only the set of characters of the corpus matters. The whole
  list is free of duplicates exactly when no string of the corpus contains a space.
\<close>

lemma create_charset_hd: "create_charset smiles ! 0 = CHR '' ''"
  by (simp add: create_charset_def)

lemma create_charset_tl_sorted:
  "sorted (tl (create_charset smiles)) \<and> distinct (tl (create_charset smiles))"
  by (simp add: create_charset_def)

lemma create_charset_set_only:
  "set (concat A) = set (concat B) \<Longrightarrow> create_charset A = create_charset B"
  by (simp add: create_charset_def collect_chars_set)

lemma create_charset_distinct_iff:
  "distinct (create_charset smiles) \<longleftrightarrow> CHR '' '' \<notin> set (concat smiles)"
  by (simp add: create_charset_def collect_chars_set)

section \<open>The encoder\<close>

lemma one_hot_array_Some:
  "charset fz = Some cs \<Longrightarrow> one_hot_array fz (int i) = Inr (one_hot (length cs) i)"
  by (simp add: one_hot_array_def one_hot_def)

lemma length_one_hot: "length (one_hot n i) = n"
  by (simp add: one_hot_def)

lemma nth_one_hot: "j < n \<Longrightarrow> one_hot n i ! j = (if j = i then 1 else 0)"
  by (simp add: one_hot_def)

lemma sum_list_one_hot: "sum_list (one_hot n i) = (if i < n then 1 else 0)"
  unfolding one_hot_def by (induction n) auto

lemma argmax_one_hot: "i < n \<Longrightarrow> argmax (one_hot n i) = Inr i"
  by (rule argmax_eqI) (auto simp: length_one_hot nth_one_hot)

lemma decode_row_one_hot:
  "charset fz = Some cs \<Longrightarrow> i < length cs \<Longrightarrow> decode_row fz (one_hot (length cs) i) = Inr (cs ! i)"
  by (simp add: decode_row_def argmax_one_hot)

lemma one_hot_index_in:
  "charset fz = Some cs \<Longrightarrow> c \<in> set cs \<Longrightarrow>
     \<exists>i. one_hot_index fz c = Inr i \<and> i < length cs \<and> cs ! i = c"
  by (simp add: one_hot_index_def list_index_in)

lemma one_hot_index_notin:
  "charset fz = Some cs \<Longrightarrow> c \<notin> set cs \<Longrightarrow> one_hot_index fz c = Inl ValueError"
  by (simp add: one_hot_index_def list_index_notin)

text \<open>
  Encoding a string whose characters are all in the charset succeeds, gives one
  well-formed row per character, and the inner loop of the decoder reads the string back.
\<close>

lemma encode_chars_ok:
  assumes "charset fz = Some cs" and "set s \<subseteq> set cs"
  shows "\<exists>m. encode_chars fz s = Inr m \<and> length m = length s \<and>
           (\<forall>row\<in>set m. length row = length cs \<and> sum_list row = 1) \<and>
           (\<forall>acc. decode_rows fz acc m = Inr (acc @ s))"
  using assms(2)
proof (induction s)
  case Nil
  then show ?case by simp
next
  case (Cons c s)
  from Cons.prems have "c \<in> set cs" by simp
  from one_hot_index_in [OF assms(1) this] obtain i
    where i: "one_hot_index fz c = Inr i" "i < length cs" "cs ! i = c" by blast
  from Cons obtain m where m: "encode_chars fz s = Inr m" "length m = length s"
    "\<forall>row\<in>set m. length row = length cs \<and> sum_list row = 1"
    "\<forall>acc. decode_rows fz acc m = Inr (acc @ s)" by auto
  have enc: "encode_chars fz (c # s) = Inr (one_hot (length cs) i # m)"
    by (simp add: i(1) m(1) one_hot_array_Some [OF assms(1)])
  have dec: "decode_rows fz acc (one_hot (length cs) i # m) = Inr (acc @ c # s)" for acc
    using decode_row_one_hot [OF assms(1) i(2)] m(4) i(3) by simp
  show ?case
    using enc dec m(2,3) i(2) by (simp add: length_one_hot sum_list_one_hot)
qed

lemma encode_chars_fail:
  assumes "charset fz = Some cs" and "\<not> set s \<subseteq> set cs"
  shows "encode_chars fz s = Inl ValueError"
  using assms(2)
proof (induction s)
  case Nil
  then show ?case by simp
next
  case (Cons c s)
  show ?case
  proof (cases "c \<in> set cs")
    case False
    then show ?thesis by (simp add: one_hot_index_notin [OF assms(1)])
  next
    case True
    with Cons have "encode_chars fz s = Inl ValueError" by auto
    moreover from one_hot_index_in [OF assms(1) True] obtain i
      where "one_hot_index fz c = Inr i" by blast
    ultimately show ?thesis by (simp add: one_hot_array_Some [OF assms(1)])
  qed
qed

lemma one_hot_encoded_ok:
  assumes "charset fz = Some cs" and "set s \<subseteq> set cs"
    and "CHR '' '' \<in> set cs \<or> pad_length fz \<le> int (length s)"
  shows "\<exists>m. one_hot_encoded fz s = Inr m \<and>
           int (length m) = max (int (length s)) (pad_length fz) \<and>
           (\<forall>row\<in>set m. length row = length cs \<and> sum_list row = 1) \<and>
           (\<forall>acc. decode_rows fz acc m = Inr (acc @ pad_smile fz s))"
proof -
  have "set (pad_smile fz s) \<subseteq> set cs"
    using assms(2,3) by (auto simp: pad_smile_def ljust_def)
  from encode_chars_ok [OF assms(1) this] obtain m
    where m: "encode_chars fz (pad_smile fz s) = Inr m" "length m = length (pad_smile fz s)"
      "\<forall>row\<in>set m. length row = length cs \<and> sum_list row = 1"
      "\<forall>acc. decode_rows fz acc m = Inr (acc @ pad_smile fz s)" by blast
  have "int (length m) = max (int (length s)) (pad_length fz)"
    using m(2) length_ljust [of s "pad_length fz"] by (simp add: pad_smile_def)
  with m show ?thesis by (simp add: one_hot_encoded_def)
qed

lemma one_hot_encoded_fail:
  assumes "charset fz = Some cs" and "\<not> set s \<subseteq> set cs"
  shows "one_hot_encoded fz s = Inl ValueError"
proof -
  have "set s \<subseteq> set (pad_smile fz s)"
    by (auto simp: pad_smile_def ljust_def)
  with assms(2) have "\<not> set (pad_smile fz s) \<subseteq> set cs" by blast
  from encode_chars_fail [OF assms(1) this] show ?thesis
    by (simp add: one_hot_encoded_def)
qed

lemma one_hot_encoded_error:
  assumes "charset fz = Some cs" and "one_hot_encoded fz s = Inl e"
  shows "e = ValueError"
proof (cases "set (pad_smile fz s) \<subseteq> set cs")
  case True
  from encode_chars_ok [OF assms(1) True] assms(2) show ?thesis
    by (auto simp: one_hot_encoded_def)
next
  case False
  from encode_chars_fail [OF assms(1) False] assms(2) show ?thesis
    by (simp add: one_hot_encoded_def)
qed

lemma encode_smiles_fail:
  assumes "charset fz = Some cs" and "s \<in> set smiles" and "\<not> set s \<subseteq> set cs"
  shows "encode_smiles fz smiles = Inl ValueError"
  using assms(2)
proof (induction smiles)
  case Nil
  then show ?case by simp
next
  case (Cons x xs)
  show ?case
  proof (cases "one_hot_encoded fz x")
    case (Inl e)
    with one_hot_encoded_error [OF assms(1) Inl] show ?thesis by simp
  next
    case (Inr m)
    with one_hot_encoded_fail [OF assms(1) assms(3)] have "x \<noteq> s" by auto
    with Cons have "encode_smiles fz xs = Inl ValueError" by simp
    with Inr show ?thesis by simp
  qed
qed

lemma encode_smiles_ok:
  assumes "charset fz = Some cs"
    and "\<forall>s\<in>set smiles. set s \<subseteq> set cs" and "CHR '' '' \<in> set cs"
  shows "\<exists>ms. encode_smiles fz smiles = Inr ms \<and>
           list_all2 (\<lambda>s m. one_hot_encoded fz s = Inr m) smiles ms \<and>
           list_all2 (\<lambda>s m. length m = length s) (map (pad_smile fz) smiles) ms"
  using assms(2)
proof (induction smiles)
  case Nil
  then show ?case by simp
next
  case (Cons x xs)
  then have "set x \<subseteq> set cs" by simp
  from one_hot_encoded_ok [OF assms(1) this] assms(3)
  obtain m where m: "one_hot_encoded fz x = Inr m"
    "int (length m) = max (int (length x)) (pad_length fz)" by blast
  have "int (length (pad_smile fz x)) = max (int (length x)) (pad_length fz)"
    by (simp add: pad_smile_def length_ljust)
  with m(2) have h: "length m = length (pad_smile fz x)" by simp
  from Cons obtain ms where "encode_smiles fz xs = Inr ms"
    "list_all2 (\<lambda>s m. one_hot_encoded fz s = Inr m) xs ms"
    "list_all2 (\<lambda>s m. length m = length s) (map (pad_smile fz) xs) ms" by auto
  with m(1) h show ?case by simp
qed

lemma list_all_heights:
  "list_all2 (\<lambda>x y. length y = length x) xs ys \<Longrightarrow>
     list_all (\<lambda>y'. length y' = n) ys = list_all (\<lambda>x'. length x' = n) xs"
  by (induction rule: list_all2_induct) simp_all

lemma same_heights_cong:
  assumes "list_all2 (\<lambda>x y. length y = length x) xs ys"
  shows "same_heights ys = same_heights xs"
proof (cases xs)
  case Nil
  with assms show ?thesis by simp
next
  case (Cons x xs')
  with assms obtain y ys' where ys: "ys = y # ys'" "length y = length x"
    "list_all2 (\<lambda>x y. length y = length x) xs' ys'"
    by (auto simp: list_all2_Cons1)
  from list_all_heights [OF ys(3), of "length x"] show ?thesis
    by (simp add: Cons ys(1,2))
qed

lemma featurize_Some:
  "charset fz = Some cs \<Longrightarrow> featurize fz smiles = (fz, encode_batch fz smiles)"
  by (simp add: featurize_def)

lemma featurize_None:
  "charset fz = None \<Longrightarrow>
     featurize fz smiles =
       (fz\<lparr>charset := Some (create_charset smiles)\<rparr>,
        encode_batch (fz\<lparr>charset := Some (create_charset smiles)\<rparr>) smiles)"
  by (simp add: featurize_def Let_def)

lemma charset_update_same: "charset fz = Some cs \<Longrightarrow> fz\<lparr>charset := Some cs\<rparr> = fz"
  by (cases fz) simp

lemma featurize_active:
  "featurize fz smiles =
     (fz\<lparr>charset := Some (active_charset fz smiles)\<rparr>,
      encode_batch (fz\<lparr>charset := Some (active_charset fz smiles)\<rparr>) smiles)"
  by (cases "charset fz") (simp_all add: featurize_def active_charset_def Let_def charset_update_same)

section \<open>The decoder\<close>

lemma untransform_loop_append:
  "untransform_loop fz z1 z = (case untransform_loop fz [] z of Inl e \<Rightarrow> Inl e | Inr r \<Rightarrow> Inr (z1 @ r))"
proof (induction z arbitrary: z1)
  case Nil
  then show ?case by simp
next
  case (Cons m ms)
  show ?case
  proof (cases "decode_rows fz [] m")
    case (Inl e)
    then show ?thesis by simp
  next
    case (Inr s)
    have "untransform_loop fz (z1 @ [[strip s]]) ms =
            (case untransform_loop fz [] ms of Inl e \<Rightarrow> Inl e | Inr r \<Rightarrow> Inr ((z1 @ [[strip s]]) @ r))"
      by (rule Cons.IH)
    moreover have "untransform_loop fz ([] @ [[strip s]]) ms =
            (case untransform_loop fz [] ms of Inl e \<Rightarrow> Inl e | Inr r \<Rightarrow> Inr (([] @ [[strip s]]) @ r))"
      by (rule Cons.IH)
    ultimately show ?thesis using Inr by (simp split: sum.splits)
  qed
qed

lemma untransform_Cons:
  "untransform fz (m # ms) =
     (case decode_rows fz [] m of
        Inl e \<Rightarrow> Inl e
      | Inr s \<Rightarrow> (case untransform fz ms of Inl e \<Rightarrow> Inl e | Inr r \<Rightarrow> Inr ([strip s] # r)))"
  unfolding untransform_def
  by (simp add: untransform_loop_append [of fz "[[strip s]]" for s] split: sum.splits)

lemma untransform_Nil: "untransform fz [] = Inr []"
  by (simp add: untransform_def)

lemma decode_row_None:
  "charset fz = None \<Longrightarrow> decode_row fz row = Inl (if row = [] then ValueError else TypeError)"
  by (cases row) (simp_all add: decode_row_def argmax_def)

lemma untransform_None:
  assumes "charset fz = None"
  shows "untransform fz z =
           (case concat z of
              [] \<Rightarrow> Inr (map (\<lambda>m. ['''']) z)
            | row # _ \<Rightarrow> Inl (if row = [] then ValueError else TypeError))"
proof (induction z)
  case Nil
  then show ?case by (simp add: untransform_Nil)
next
  case (Cons m ms)
  show ?case
  proof (cases m)
    case Nil
    have c: "concat (m # ms) = concat ms" using Nil by simp
    have s: "strip [] = []" by (simp add: strip_def)
    have u: "untransform fz (m # ms) =
               (case untransform fz ms of Inl e \<Rightarrow> Inl e | Inr r \<Rightarrow> Inr ([''''] # r))"
      using Nil by (simp add: untransform_Cons s split: sum.splits)
    show ?thesis
    proof (cases "concat ms")
      case Nil2: Nil
      from Cons.IH have "untransform fz ms = Inr (map (\<lambda>m. ['''']) ms)"
        unfolding Nil2 by simp
      then show ?thesis unfolding c Nil2 u by simp
    next
      case (Cons row rows)
      from Cons.IH have "untransform fz ms = Inl (if row = [] then ValueError else TypeError)"
        unfolding Cons by simp
      then show ?thesis unfolding c Cons u by simp
    qed
  next
    case (Cons row rows)
    have d: "decode_rows fz [] (row # rows) = Inl (if row = [] then ValueError else TypeError)"
      by (simp add: decode_row_None [OF assms])
    have "untransform fz (m # ms) = Inl (if row = [] then ValueError else TypeError)"
      unfolding Cons untransform_Cons d by simp
    then show ?thesis using Cons by simp
  qed
qed

lemma decode_row_ok_iff:
  "charset fz = Some cs \<Longrightarrow>
     (\<exists>c. decode_row fz row = Inr c) \<longleftrightarrow> (\<exists>k. argmax row = Inr k \<and> k < length cs)"
  by (auto simp: decode_row_def split: sum.splits)

lemma decode_rows_ok_iff:
  assumes "charset fz = Some cs"
  shows "(\<exists>s. decode_rows fz acc m = Inr s) \<longleftrightarrow>
           (\<forall>row\<in>set m. \<exists>k. argmax row = Inr k \<and> k < length cs)"
proof (induction m arbitrary: acc)
  case Nil
  then show ?case by simp
next
  case (Cons row rows)
  show ?case
  proof (cases "decode_row fz row")
    case (Inl e)
    with decode_row_ok_iff [OF assms, of row] show ?thesis by auto
  next
    case (Inr c)
    with decode_row_ok_iff [OF assms, of row] Cons.IH [of "acc @ [c]"] show ?thesis by auto
  qed
qed

lemma untransform_ok_iff:
  assumes "charset fz = Some cs"
  shows "(\<exists>r. untransform fz z = Inr r) \<longleftrightarrow>
           (\<forall>m\<in>set z. \<forall>row\<in>set m. \<exists>k. argmax row = Inr k \<and> k < length cs)"
proof (induction z)
  case Nil
  then show ?case by (simp add: untransform_Nil)
next
  case (Cons m ms)
  show ?case
  proof (cases "decode_rows fz [] m")
    case (Inl e)
    with decode_rows_ok_iff [OF assms, of "[]" m] show ?thesis
      by (auto simp: untransform_Cons)
  next
    case (Inr s)
    with decode_rows_ok_iff [OF assms, of "[]" m] Cons.IH show ?thesis
      by (auto simp: untransform_Cons split: sum.splits)
  qed
qed

lemma decode_row_pad_length: "decode_row (fz\<lparr>pad_length := p\<rparr>) row = decode_row fz row"
  by (simp add: decode_row_def split: sum.splits)

lemma decode_rows_pad_length: "decode_rows (fz\<lparr>pad_length := p\<rparr>) acc m = decode_rows fz acc m"
  by (induction m arbitrary: acc) (simp_all add: decode_row_pad_length split: sum.splits)

lemma untransform_loop_pad_length:
  "untransform_loop (fz\<lparr>pad_length := p\<rparr>) z1 z = untransform_loop fz z1 z"
  by (induction z arbitrary: z1) (simp_all add: decode_rows_pad_length split: sum.splits)

section \<open>The claims\<close>

subsection \<open>C1: round trip\<close>

text \<open>
  C1, as stated, fails: the string \<open>'' C''\<close> is built from the charset \<open>[' ', 'C']\<close>,
  is shorter than the pad length 5 and has no trailing space, and decoding its encoding
  gives \<open>''C''\<close>, because \<open>strip\<close> also removes the leading space.
\<close>

theorem roundtrip_leading_space_counterexample:
  "set '' C'' \<subseteq> set '' C'' \<and> int (length '' C'') \<le> 5 \<and> last '' C'' \<noteq> CHR '' '' \<and>
   featurize (init (Some '' C'') 5) ['' C''] =
     (init (Some '' C'') 5, Inr [[[1, 0], [0, 1], [1, 0], [1, 0], [1, 0]]]) \<and>
   untransform (init (Some '' C'') 5) [[[1, 0], [0, 1], [1, 0], [1, 0], [1, 0 :: int]]] = Inr [[''C'']] \<and>
   ''C'' \<noteq> '' C''"
  by code_simp

text \<open>
  C1, amended: for every string \<open>s\<close> built only from characters of the active charset,
  with \<open>len(s) \<le> padLength\<close>, with no whitespace at its start or at its end, and with
  the space in the charset unless \<open>len(s) = padLength\<close>, encoding the batch \<open>[s]\<close>
  succeeds with a one-matrix batch, and decoding that batch with the encoder as the
  encode call left it returns \<open>[[s]]\<close>: the string \<open>s\<close> itself, in the one-element list
  the decoder wraps every string in.
\<close>

theorem featurize_untransform_roundtrip:
  assumes "set s \<subseteq> set (active_charset fz [s])"
    and "int (length s) \<le> pad_length fz"
    and "CHR '' '' \<in> set (active_charset fz [s]) \<or> int (length s) = pad_length fz"
    and "s = [] \<or> (\<not> isspace (hd s) \<and> \<not> isspace (last s))"
  shows "\<exists>m. featurize fz [s] = (fz\<lparr>charset := Some (active_charset fz [s])\<rparr>, Inr [m]) \<and>
             untransform (fst (featurize fz [s])) [m] = Inr [[s]]"
proof -
  define fz' where "fz' = fz\<lparr>charset := Some (active_charset fz [s])\<rparr>"
  have cs: "charset fz' = Some (active_charset fz [s])" and pl: "pad_length fz' = pad_length fz"
    by (simp_all add: fz'_def)
  have sp: "CHR '' '' \<in> set (active_charset fz [s]) \<or> pad_length fz' \<le> int (length s)"
    using assms(3) pl by auto
  from one_hot_encoded_ok [OF cs assms(1) sp] obtain m
    where m: "one_hot_encoded fz' s = Inr m"
      "\<forall>acc. decode_rows fz' acc m = Inr (acc @ pad_smile fz' s)" by blast
  have pad: "pad_smile fz' s = s @ replicate (nat (pad_length fz - int (length s))) (CHR '' '')"
    using assms(2) by (simp add: pad_smile_def pl ljust_short)
  have "decode_rows fz' [] m = Inr (pad_smile fz' s)" using m(2) by simp
  then have "untransform fz' [m] = Inr [[strip (pad_smile fz' s)]]"
    by (simp add: untransform_def)
  then have dec: "untransform fz' [m] = Inr [[s]]"
    by (simp add: pad strip_padded [OF assms(4)])
  have enc: "featurize fz [s] = (fz', Inr [m])"
    using m(1) by (simp add: featurize_active fz'_def [symmetric] encode_batch_def np_array_def)
  from enc dec show ?thesis by (auto simp: fz'_def)
qed

theorem featurize_untransform_roundtrip_witness:
  "\<exists>m. featurize (init (Some '' CNO'') 5) [''CO''] = (init (Some '' CNO'') 5, Inr [m]) \<and>
       untransform (init (Some '' CNO'') 5) [m] = Inr [[''CO'']]"
proof -
  have c: "active_charset (init (Some '' CNO'') 5) [''CO''] = '' CNO''"
    by (simp add: active_charset_def init_def)
  have h1: "set ''CO'' \<subseteq> set (active_charset (init (Some '' CNO'') 5) [''CO''])"
    by (simp add: c)
  have h2: "int (length ''CO'') \<le> pad_length (init (Some '' CNO'') 5)"
    by (simp add: init_def)
  have h3: "CHR '' '' \<in> set (active_charset (init (Some '' CNO'') 5) [''CO'']) \<or>
            int (length ''CO'') = pad_length (init (Some '' CNO'') 5)"
    by (simp add: c)
  have h4: "''CO'' = [] \<or> (\<not> isspace (hd ''CO'') \<and> \<not> isspace (last ''CO''))"
    by (simp add: isspace_def)
  have e: "(init (Some '' CNO'') 5)\<lparr>charset := Some '' CNO''\<rparr> = init (Some '' CNO'') 5"
    by (simp add: init_def)
  from featurize_untransform_roundtrip [OF h1 h2 h3 h4] show ?thesis
    by (auto simp: c e)
qed

subsection \<open>C2: shape of an encoded string\<close>

text \<open>
  C2, as stated, fails: with pad length 2 the string \<open>''CCO''\<close>, whose characters are
  all in the charset, is encoded into three rows.
\<close>

theorem shape_over_length_counterexample:
  "set ''CCO'' \<subseteq> set '' CO'' \<and>
   one_hot_encoded (init (Some '' CO'') 2) ''CCO'' = Inr [[0, 1, 0], [0, 1, 0], [0, 0, 1]] \<and>
   int (length [[0, 1, 0], [0, 1, 0], [0, 0, 1 :: int]]) \<noteq> pad_length (init (Some '' CO'') 2)"
  by code_simp

text \<open>
  C2, amended: for every string whose characters are all in the charset (the charset
  containing the space unless the string is at least \<open>padLength\<close> long, so that no
  padding is looked up in vain), the encoding succeeds and the matrix has exactly
  \<open>max(len(s), padLength)\<close> rows, that is \<open>padLength\<close> rows whenever
  \<open>len(s) \<le> padLength\<close>; each row has exactly \<open>|Charset|\<close> columns and sums to
  exactly 1.
\<close>

theorem one_hot_encoded_shape:
  assumes "charset fz = Some cs" and "set s \<subseteq> set cs"
    and "CHR '' '' \<in> set cs \<or> pad_length fz \<le> int (length s)"
  shows "\<exists>m. one_hot_encoded fz s = Inr m \<and>
           int (length m) = max (int (length s)) (pad_length fz) \<and>
           (\<forall>row\<in>set m. length row = length cs \<and> sum_list row = 1)"
  using one_hot_encoded_ok [OF assms] by blast

theorem one_hot_encoded_shape_witness:
  "\<exists>m. one_hot_encoded (init (Some '' CNO'') 5) ''CO'' = Inr m \<and>
       int (length m) = max (int (length ''CO'')) (pad_length (init (Some '' CNO'') 5)) \<and>
       (\<forall>row\<in>set m. length row = length '' CNO'' \<and> sum_list row = 1)"
proof -
  have h1: "charset (init (Some '' CNO'') 5) = Some '' CNO''" by (simp add: init_def)
  have h2: "set ''CO'' \<subseteq> set '' CNO''" by simp
  have h3: "CHR '' '' \<in> set '' CNO'' \<or> pad_length (init (Some '' CNO'') 5) \<le> int (length ''CO'')"
    by simp
  from one_hot_encoded_shape [OF h1 h2 h3] show ?thesis .
qed

subsection \<open>C3: unknown character\<close>

text \<open>
  C3: for every string that contains a character absent from the charset of the encoder,
  encoding the string fails with the lookup error of \<open>list.index\<close> (Python's
  ValueError, "x is not in list"), and so does the encode call on any batch that contains
  the string: the error is the result of the call, no encoded output is returned, and the
  encoder is unchanged.
\<close>

theorem unknown_character_fails:
  assumes "charset fz = Some cs" and "s \<in> set smiles" and "\<not> set s \<subseteq> set cs"
  shows "one_hot_encoded fz s = Inl ValueError \<and> featurize fz smiles = (fz, Inl ValueError)"
  using one_hot_encoded_fail [OF assms(1,3)] encode_smiles_fail [OF assms]
  by (simp add: featurize_Some [OF assms(1)] encode_batch_def)

theorem unknown_character_fails_witness:
  "one_hot_encoded (init (Some '' CNO'') 5) ''CS'' = Inl ValueError \<and>
   featurize (init (Some '' CNO'') 5) [''CO'', ''CS'', ''N''] = (init (Some '' CNO'') 5, Inl ValueError)"
proof -
  have h1: "charset (init (Some '' CNO'') 5) = Some '' CNO''" by (simp add: init_def)
  have h2: "''CS'' \<in> set [''CO'', ''CS'', ''N'']" by simp
  have h3: "\<not> set ''CS'' \<subseteq> set '' CNO''" by simp
  from unknown_character_fails [OF h1 h2 h3] show ?thesis .
qed

subsection \<open>C4: the built charset\<close>

text \<open>
  C4: the vocabulary builder is meant to return the space followed by the sorted distinct
  characters of the corpus, all elements unique. On the corpus \<open>[''C C'']\<close>, which
  contains a space, it returns the space twice: the space is prepended without being taken
  out of the set of characters.
\<close>

theorem create_charset_duplicate_space:
  "create_charset [''C C''] = [CHR '' '', CHR '' '', CHR ''C''] \<and>
   \<not> distinct (create_charset [''C C''])"
  by code_simp

subsection \<open>C5: the charset is built once\<close>

text \<open>
  C5: for an encoder whose charset is unset, the first encode call, on corpus \<open>A\<close>,
  stores the charset built from \<open>A\<close>; a later encode call on any corpus \<open>B\<close> leaves the
  encoder unchanged and returns what encoding the batch \<open>B\<close> with the charset built from
  \<open>A\<close> returns.
\<close>

theorem featurize_caches_charset:
  assumes "charset fz = None"
  shows "charset (fst (featurize fz A)) = Some (create_charset A) \<and>
         fst (featurize (fst (featurize fz A)) B) = fst (featurize fz A) \<and>
         snd (featurize (fst (featurize fz A)) B) =
           encode_batch (fz\<lparr>charset := Some (create_charset A)\<rparr>) B"
proof -
  define fz1 where "fz1 = fz\<lparr>charset := Some (create_charset A)\<rparr>"
  have 1: "fst (featurize fz A) = fz1"
    by (simp add: featurize_None [OF assms] fz1_def)
  have 2: "charset fz1 = Some (create_charset A)" by (simp add: fz1_def)
  show ?thesis
    unfolding 1 using 2 by (simp add: featurize_Some [OF 2] fz1_def [symmetric])
qed

theorem featurize_caches_charset_witness:
  "(charset (fst (featurize (init None 5) [''CO''])) = Some (create_charset [''CO'']) \<and>
    fst (featurize (fst (featurize (init None 5) [''CO''])) [''N'']) =
      fst (featurize (init None 5) [''CO'']) \<and>
    snd (featurize (fst (featurize (init None 5) [''CO''])) [''N'']) =
      encode_batch ((init None 5)\<lparr>charset := Some (create_charset [''CO''])\<rparr>) [''N'']) \<and>
   create_charset [''CO''] = '' CO'' \<and> create_charset [''N''] = '' N'' \<and>
   encode_batch ((init None 5)\<lparr>charset := Some (create_charset [''CO''])\<rparr>) [''N''] =
     Inl ValueError"
proof -
  have h: "charset (init None 5) = None" by (simp add: init_def)
  have c: "create_charset [''CO''] = '' CO'' \<and> create_charset [''N''] = '' N'' \<and>
    encode_batch ((init None 5)\<lparr>charset := Some (create_charset [''CO''])\<rparr>) [''N''] =
      Inl ValueError"
    by code_simp
  from featurize_caches_charset [OF h, of "[''CO'']" "[''N'']"] c show ?thesis
    by (rule conjI)
qed

subsection \<open>C6: unset charset\<close>

text \<open>
  C6, as stated, fails: with no charset given, encoding the empty corpus succeeds (the
  charset becomes \<open>[' ']\<close> and the batch is empty), and decoding a batch without rows
  before any charset exists succeeds as well.
\<close>

theorem unset_charset_no_error_counterexample:
  "charset (init None 120) = None \<and>
   featurize (init None 120) [] = (init (Some '' '') 120, Inr []) \<and>
   untransform (init None 120) ([] :: int list list list) = Inr [] \<and>
   untransform (init None 120) [[] :: int list list] = Inr [['''']]"
  by code_simp

text \<open>
  C6, amended: an unset charset makes encode neither fail nor skip a lookup: the charset
  can always be built from the corpus (for the empty corpus it is \<open>[' ']\<close>), it is
  stored, and every string of the corpus is encoded with it. The call returns these
  matrices, one per string, when all strings have the same length after padding, and
  otherwise fails with the ValueError of \<open>np.array\<close> on matrices of unequal height, the
  charset staying stored. Decode with an unset charset returns one empty string per matrix
  when the batch has no row at all; otherwise it fails at the first row, with TypeError
  from indexing None (with ValueError from the arg-max if that row is empty).
\<close>

theorem unset_charset_behaviour:
  assumes "charset fz = None"
  shows "(\<exists>ms. list_all2 (\<lambda>s m. one_hot_encoded (fz\<lparr>charset := Some (create_charset smiles)\<rparr>) s = Inr m)
                smiles ms \<and>
              featurize fz smiles =
                (fz\<lparr>charset := Some (create_charset smiles)\<rparr>,
                 if same_heights (map (pad_smile fz) smiles) then Inr ms else Inl ValueError)) \<and>
         untransform fz z =
           (case concat z of
              [] \<Rightarrow> Inr (map (\<lambda>m. ['''']) z)
            | row # _ \<Rightarrow> Inl (if row = [] then ValueError else TypeError))"
proof -
  define fz' where "fz' = fz\<lparr>charset := Some (create_charset smiles)\<rparr>"
  have cs: "charset fz' = Some (create_charset smiles)" by (simp add: fz'_def)
  have pad: "pad_smile fz' = pad_smile fz" by (rule ext) (simp add: fz'_def pad_smile_def)
  have "\<forall>s\<in>set smiles. set s \<subseteq> set (create_charset smiles)"
    by (auto simp: set_create_charset)
  moreover have "CHR '' '' \<in> set (create_charset smiles)"
    by (simp add: set_create_charset)
  ultimately obtain ms where ms: "encode_smiles fz' smiles = Inr ms"
    "list_all2 (\<lambda>s m. one_hot_encoded fz' s = Inr m) smiles ms"
    "list_all2 (\<lambda>s m. length m = length s) (map (pad_smile fz') smiles) ms"
    using encode_smiles_ok [OF cs] by blast
  from same_heights_cong [OF ms(3)]
  have "same_heights ms = same_heights (map (pad_smile fz) smiles)" by (simp add: pad)
  with ms(1) have "featurize fz smiles =
      (fz', if same_heights (map (pad_smile fz) smiles) then Inr ms else Inl ValueError)"
    by (simp add: featurize_None [OF assms] fz'_def encode_batch_def np_array_def)
  with ms(2) have "\<exists>ms. list_all2 (\<lambda>s m. one_hot_encoded fz' s = Inr m) smiles ms \<and>
      featurize fz smiles =
        (fz', if same_heights (map (pad_smile fz) smiles) then Inr ms else Inl ValueError)"
    by blast
  then show ?thesis
    using untransform_None [OF assms, of z] by (simp add: fz'_def)
qed

theorem unset_charset_behaviour_witness:
  "((\<exists>ms. list_all2
            (\<lambda>s m. one_hot_encoded ((init None 2)\<lparr>charset := Some (create_charset [''CCO'', ''C''])\<rparr>) s = Inr m)
            [''CCO'', ''C''] ms \<and>
          featurize (init None 2) [''CCO'', ''C''] =
            ((init None 2)\<lparr>charset := Some (create_charset [''CCO'', ''C''])\<rparr>,
             if same_heights (map (pad_smile (init None 2)) [''CCO'', ''C'']) then Inr ms
             else Inl ValueError)) \<and>
    untransform (init None 2) [[], [[0, 1 :: int]]] =
      (case concat [[], [[0, 1 :: int]]] of
         [] \<Rightarrow> Inr (map (\<lambda>m. ['''']) [[], [[0, 1 :: int]]])
       | row # _ \<Rightarrow> Inl (if row = [] then ValueError else TypeError))) \<and>
   featurize (init None 2) [''CCO'', ''C''] = (init (Some '' CO'') 2, Inl ValueError) \<and>
   featurize (init None 2) [''CO'', ''C''] =
     (init (Some '' CO'') 2, Inr [[[0, 1, 0], [0, 0, 1]], [[0, 1, 0], [1, 0, 0]]]) \<and>
   untransform (init None 2) [[], [[0, 1 :: int]]] = Inl TypeError"
proof -
  have h: "charset (init None 2) = None" by (simp add: init_def)
  have e: "featurize (init None 2) [''CCO'', ''C''] = (init (Some '' CO'') 2, Inl ValueError) \<and>
   featurize (init None 2) [''CO'', ''C''] =
     (init (Some '' CO'') 2, Inr [[[0, 1, 0], [0, 0, 1]], [[0, 1, 0], [1, 0, 0]]]) \<and>
   untransform (init None 2) [[], [[0, 1 :: int]]] = Inl TypeError"
    by code_simp
  from unset_charset_behaviour [OF h, of "[''CCO'', ''C'']" "[[], [[0, 1 :: int]]]"] e
  show ?thesis by (rule conjI)
qed

subsection \<open>C7: the concrete scenario\<close>

text \<open>
  C7: with charset \<open>[' ', 'C', 'N', 'O']\<close> and pad length 5, the string \<open>''CO''\<close> is
  padded to \<open>''CO   ''\<close>, its characters have the indices 1, 3, 0, 0, 0, the encoded
  matrix consists of the one-hot rows for these indices, and decoding the batch that holds
  this matrix returns the string \<open>''CO''\<close> (in its one-element list).
\<close>

theorem concrete_scenario:
  "pad_smile (init (Some '' CNO'') 5) ''CO'' = ''CO   '' \<and>
   map (one_hot_index (init (Some '' CNO'') 5)) ''CO   '' = [Inr 1, Inr 3, Inr 0, Inr 0, Inr 0] \<and>
   one_hot_encoded (init (Some '' CNO'') 5) ''CO'' =
     Inr [[0, 1, 0, 0], [0, 0, 0, 1], [1, 0, 0, 0], [1, 0, 0, 0], [1, 0, 0, 0]] \<and>
   untransform (init (Some '' CNO'') 5)
     [[[0, 1, 0, 0], [0, 0, 0, 1], [1, 0, 0, 0], [1, 0, 0, 0], [1, 0, 0, 0 :: int]]] = Inr [[''CO'']]"
  by code_simp

subsection \<open>C8: ties in the arg-max\<close>

text \<open>
  C8: when entry \<open>i\<close> of a row is maximal and every entry before it is strictly
  smaller, so that \<open>i\<close> is the lowest index among the maxima however many there are,
  the decoder selects \<open>i\<close> and appends the character at index \<open>i\<close> of the charset to
  the string it builds.
\<close>

theorem untransform_argmax_lowest_index:
  fixes row :: "'a::linorder list"
  assumes "charset fz = Some cs" and "i < length row" and "i < length cs"
    and "\<forall>j<length row. row ! j \<le> row ! i" and "\<forall>j<i. row ! j < row ! i"
  shows "argmax row = Inr i \<and> decode_row fz row = Inr (cs ! i) \<and>
         decode_rows fz s (row # rows) = decode_rows fz (s @ [cs ! i]) rows \<and>
         untransform fz [[row]] = Inr [[strip [cs ! i]]]"
proof -
  have a: "argmax row = Inr i" using assms(2,4,5) by (rule argmax_eqI)
  then have d: "decode_row fz row = Inr (cs ! i)"
    using assms(1,3) by (simp add: decode_row_def)
  then show ?thesis using a by (simp add: untransform_def)
qed

theorem untransform_argmax_lowest_index_witness:
  "argmax [1, 3, 3, 0 :: int] = Inr 1 \<and>
   decode_row (init (Some '' CNO'') 5) [1, 3, 3, 0 :: int] = Inr ('' CNO'' ! 1) \<and>
   decode_rows (init (Some '' CNO'') 5) ''O'' ([1, 3, 3, 0 :: int] # []) =
     decode_rows (init (Some '' CNO'') 5) (''O'' @ ['' CNO'' ! 1]) ([] :: int list list) \<and>
   untransform (init (Some '' CNO'') 5) [[[1, 3, 3, 0 :: int]]] = Inr [[strip ['' CNO'' ! 1]]]"
proof -
  have h1: "charset (init (Some '' CNO'') 5) = Some '' CNO''" by (simp add: init_def)
  have h2: "1 < length [1, 3, 3, 0 :: int]" by simp
  have h3: "1 < length '' CNO''" by simp
  have h4: "\<forall>j<length [1, 3, 3, 0 :: int]. [1, 3, 3, 0 :: int] ! j \<le> [1, 3, 3, 0 :: int] ! 1"
    by (simp add: nth_Cons' less_Suc_eq)
  have h5: "\<forall>j<1. [1, 3, 3, 0 :: int] ! j < [1, 3, 3, 0 :: int] ! 1" by simp
  from untransform_argmax_lowest_index [OF h1 h2 h3 h4 h5, of "''O''" "[]"] show ?thesis .
qed

subsection \<open>C9: malformed decode input\<close>

text \<open>
  C9, as stated, fails: with a charset of four characters and pad length 5, a batch whose
  only matrix has one row of width 2 is decoded to \<open>''C''\<close> without any error.
\<close>

theorem untransform_malformed_counterexample:
  "charset (init (Some '' CNO'') 5) = Some '' CNO'' \<and>
   length [0, 1 :: int] \<noteq> length '' CNO'' \<and>
   int (length [[0, 1 :: int]]) \<noteq> pad_length (init (Some '' CNO'') 5) \<and>
   untransform (init (Some '' CNO'') 5) [[[0, 1 :: int]]] = Inr [[''C'']]"
  by code_simp

text \<open>
  C9, amended: decode does not validate the shape of its input. With a charset set, it
  succeeds exactly when every row is non-empty and its arg-max index is below
  \<open>|Charset|\<close>, whatever the width of the rows and the height of the matrices, and its
  result does not depend on \<open>padLength\<close>.
\<close>

theorem untransform_no_shape_check:
  assumes "charset fz = Some cs"
  shows "((\<exists>r. untransform fz z = Inr r) \<longleftrightarrow>
            (\<forall>m\<in>set z. \<forall>row\<in>set m. \<exists>k. argmax row = Inr k \<and> k < length cs)) \<and>
         untransform (fz\<lparr>pad_length := p\<rparr>) z = untransform fz z"
  using untransform_ok_iff [OF assms, of z]
  by (simp add: untransform_def untransform_loop_pad_length)

theorem untransform_no_shape_check_witness:
  "((\<exists>r. untransform (init (Some '' CNO'') 5) [[[0, 1 :: int]]] = Inr r) \<longleftrightarrow>
      (\<forall>m\<in>set [[[0, 1 :: int]]]. \<forall>row\<in>set m. \<exists>k. argmax row = Inr k \<and> k < length '' CNO'')) \<and>
   untransform ((init (Some '' CNO'') 5)\<lparr>pad_length := 1\<rparr>) [[[0, 1 :: int]]] =
     untransform (init (Some '' CNO'') 5) [[[0, 1 :: int]]]"
proof -
  have h: "charset (init (Some '' CNO'') 5) = Some '' CNO''" by (simp add: init_def)
  from untransform_no_shape_check [OF h] show ?thesis .
qed

subsection \<open>C10: strings longer than the pad length\<close>

text \<open>
  C10: for every string longer than \<open>padLength\<close> whose characters are all in the
  charset, padding returns the string unchanged and encoding succeeds with exactly
  \<open>len(s)\<close> rows: nothing is truncated and no error is raised.
\<close>

theorem over_length_not_truncated:
  assumes "charset fz = Some cs" and "set s \<subseteq> set cs" and "pad_length fz < int (length s)"
  shows "pad_smile fz s = s \<and> (\<exists>m. one_hot_encoded fz s = Inr m \<and> length m = length s)"
proof -
  have p: "pad_smile fz s = s" using assms(3) by (simp add: pad_smile_def ljust_def)
  from encode_chars_ok [OF assms(1,2)] obtain m
    where "encode_chars fz s = Inr m" "length m = length s" by blast
  with p show ?thesis by (simp add: one_hot_encoded_def)
qed

theorem over_length_not_truncated_witness:
  "pad_smile (init (Some ''CO'') 2) ''CCO'' = ''CCO'' \<and>
   (\<exists>m. one_hot_encoded (init (Some ''CO'') 2) ''CCO'' = Inr m \<and> length m = length ''CCO'')"
proof -
  have h1: "charset (init (Some ''CO'') 2) = Some ''CO''" by (simp add: init_def)
  have h2: "set ''CCO'' \<subseteq> set ''CO''" by simp
  have h3: "pad_length (init (Some ''CO'') 2) < int (length ''CCO'')" by (simp add: init_def)
  from over_length_not_truncated [OF h1 h2 h3] show ?thesis .
qed

end
